theory Spec2Isabelle
  imports Main "HOL-Library.Word"
begin

section \<open>Data model of translate.hh\<close>

text \<open>
  The header uses the integer typedefs of the decompiler. \<open>int4\<close> and \<open>uint4\<close> are the
  4-byte signed and unsigned integers and \<open>uint1\<close> is a byte; a signed value is read
  with \<open>sint\<close>, an unsigned one with \<open>unat\<close>. The widths of \<open>uintb\<close> (offsets),
  \<open>uintm\<close> and \<open>uintp\<close> (the pointer-sized integer) are fixed outside this header, so
  they are type parameters here: \<open>'b word\<close>, \<open>'m word\<close> and \<open>'p word\<close>.
  An \<open>AddrSpace *\<close> is a machine pointer, a \<open>'p word\<close>.
\<close>

type_synonym int4 = "32 word"
type_synonym uint4 = "32 word"
type_synonym uint1 = "8 word"

subsection \<open>Exceptions\<close>

text \<open>
  \<open>struct UnimplError : public LowlevelError\<close>: the base class holds the explanation
  string, the derived struct adds \<open>instruction_length\<close>.
\<close>

record LowlevelError =
  explain :: string

record UnimplError = LowlevelError +
  instruction_length :: int4

text \<open>
  \<open>UnimplError(const string &s,int4 l) : LowlevelError(s) { instruction_length = l; }\<close>:
  the base part is built from \<open>s\<close>, then the body assigns the length.
\<close>

definition LowlevelError_init :: "string \<Rightarrow> LowlevelError" where
  "LowlevelError_init s = \<lparr>explain = s\<rparr>"

definition UnimplError_init :: "string \<Rightarrow> int4 \<Rightarrow> UnimplError" where
  "UnimplError_init s l =
     LowlevelError.extend (LowlevelError_init s) (UnimplError.fields l)"

subsection \<open>Tags of the packed pcode format\<close>

text \<open>The anonymous enum of \<open>PcodeEmit\<close>; a C++ enumerator is an integer constant.\<close>

definition unimpl_tag :: int where "unimpl_tag = 0x20"
definition inst_tag :: int where "inst_tag = 0x21"
definition op_tag :: int where "op_tag = 0x22"
definition void_tag :: int where "void_tag = 0x23"
definition spaceid_tag :: int where "spaceid_tag = 0x24"
definition addrsz_tag :: int where "addrsz_tag = 0x25"
definition end_tag :: int where "end_tag = 0x60"

subsection \<open>Addresses, varnodes and join records\<close>

text \<open>
  Modelled from the spec: \<open>Address\<close> and \<open>VarnodeData\<close> are declared in address.hh and
  pcoderaw.hh, which this header includes. The spec gives an Address as
  (space reference, offset) and a VarnodeData as (space reference, offset,
  size-in-bytes). \<open>mkAddress\<close> is the constructor \<open>Address(AddrSpace *id,uintb off)\<close>.
\<close>

record (overloaded) ('p, 'b) Address =
  base :: "'p word"
  offset :: "'b word"

definition mkAddress :: "'p word \<Rightarrow> 'b word \<Rightarrow> ('p, 'b) Address" where
  "mkAddress spc off = \<lparr>base = spc, offset = off\<rparr>"

record (overloaded) ('p, 'b) VarnodeData =
  space :: "'p word"
  offset_vn :: "'b word"
  size_vn :: uint4

text \<open>\<open>class JoinRecord\<close>: the physical pieces and the unified whole.\<close>

record (overloaded) ('p, 'b) JoinRecord =
  pieces :: "('p, 'b) VarnodeData list"
  unified :: "('p, 'b) VarnodeData"




subsection \<open>The address space manager\<close>

text \<open>
  The fields of \<open>class AddrSpaceManager\<close>, in the order of the header. The two maps are
  partial functions. A \<open>JoinRecord *\<close> is the position of the record in \<open>splitlist\<close>,
  the vector that owns the records: a record is never moved or removed, so its
  position identifies the object. \<open>splitset\<close>, a set of record pointers ordered by a
  comparison of the records, holds at most one record of each comparison class; it is
  the partial map from the piece sequence to the pointer of its record.
\<close>

record (overloaded) ('p, 'b) AddrSpaceManager =
  baselist :: "'p word list"
  resolvelist :: "'p word list"
  name2Space :: "string \<rightharpoonup> 'p word"
  shortcut2Space :: "int4 \<rightharpoonup> 'p word"
  constantspace :: "'p word"
  defaultspace :: "'p word"
  iopspace :: "'p word"
  fspecspace :: "'p word"
  joinspace :: "'p word"
  stackspace :: "'p word"
  uniqspace :: "'p word"
  joinallocate :: "'b word"
  splitset :: "('p, 'b) VarnodeData list \<rightharpoonup> nat"
  splitlist :: "('p, 'b) JoinRecord list"

definition getConstantSpace :: "('p, 'b, 'z) AddrSpaceManager_scheme \<Rightarrow> 'p word" where
  "getConstantSpace m = constantspace m"

definition getConstant ::
  "('p, 'b, 'z) AddrSpaceManager_scheme \<Rightarrow> 'b word \<Rightarrow> ('p, 'b) Address" where
  "getConstant m val = mkAddress (constantspace m) val"

text \<open>
  \<open>Address(constantspace,(uintb)(uintp)spc)\<close>: the pointer is read as the integer of
  its own width, then converted to \<open>uintb\<close> (zero-extended or truncated).
\<close>

definition createConstFromSpace ::
  "('p::len, 'b::len, 'z) AddrSpaceManager_scheme \<Rightarrow> 'p word \<Rightarrow> ('p, 'b) Address" where
  "createConstFromSpace m spc = mkAddress (constantspace m) (ucast spc)"

definition numSpaces :: "('p, 'b, 'z) AddrSpaceManager_scheme \<Rightarrow> int4" where
  "numSpaces m = of_nat (length (baselist m))"

text \<open>
  \<open>return baselist[i];\<close> indexes the vector without a check. The \<open>int4\<close> index is
  converted to the unsigned index type, so a negative index is far out of range.
  An index outside the vector has no defined result in C++: the model says so
  with \<open>Undefined\<close> instead of inventing a value.
\<close>

datatype 'a subscript = Element 'a | Undefined

definition getSpace ::
  "('p, 'b, 'z) AddrSpaceManager_scheme \<Rightarrow> int4 \<Rightarrow> 'p word subscript" where
  "getSpace m i =
     (if 0 \<le> sint i \<and> nat (sint i) < length (baselist m)
      then Element (baselist m ! nat (sint i))
      else Undefined)"

subsection \<open>The translator\<close>

text \<open>\<open>FloatFormat\<close> is a class of float.hh; only lists of it occur here.\<close>

typedecl FloatFormat

record (overloaded) ('p, 'b, 'm) Translate = "('p, 'b) AddrSpaceManager" +
  target_isbigendian :: bool
  unique_base :: "'m word"
  alignment :: int4
  floatformats :: "FloatFormat list"

text \<open>\<open>if (val>unique_base) unique_base = val;\<close> on the unsigned \<open>uintm\<close>.\<close>

definition setUniqueBase ::
  "('p, 'b, 'm::len, 'z) Translate_scheme \<Rightarrow> 'm word \<Rightarrow> ('p, 'b, 'm, 'z) Translate_scheme" where
  "setUniqueBase t val = (if val > unique_base t then t\<lparr>unique_base := val\<rparr> else t)"

definition getUniqueBase :: "('p, 'b, 'm, 'z) Translate_scheme \<Rightarrow> 'm word" where
  "getUniqueBase t = unique_base t"

text \<open>
  The virtual methods with the empty body \<open>{}\<close> in the base class: the call returns
  the translator as it was.
\<close>

definition registerContext ::
  "('p, 'b, 'm, 'z) Translate_scheme \<Rightarrow> string \<Rightarrow> int4 \<Rightarrow> int4 \<Rightarrow> ('p, 'b, 'm, 'z) Translate_scheme" where
  "registerContext t name sbit ebit = t"

definition setContextDefault ::
  "('p, 'b, 'm, 'z) Translate_scheme \<Rightarrow> string \<Rightarrow> 'm word \<Rightarrow> ('p, 'b, 'm, 'z) Translate_scheme" where
  "setContextDefault t name val = t"

subsection \<open>Join records of the manager\<close>

text \<open>
  Modelled from the spec: the body of \<open>AddrSpaceManager::findAddJoin\<close> is not in
  translate.hh, which only declares it. The spec (section 4.1) has it look the piece
  list up in the de-duplication set; on a hit it returns the existing record
  unchanged; on a miss it takes the next offset of the join space (\<open>joinallocate\<close>),
  builds the unified varnode with size max(sum of piece sizes, logicalsize), inserts
  the record into the de-duplication set and into the offset-indexed list, and returns
  the new record. Two records are equal iff their piece sequences are identical, so the
  lookup is by the piece sequence alone. The spec names no failure of the operation, so
  every request is answered. The spec does not say how far the cursor moves: here it
  moves past the unified varnode, by its size, the least that keeps the locations
  apart. The sum of the sizes and the new cursor are computed in the integer types of
  the fields, \<open>uint4\<close> and \<open>uintb\<close>, and wrap as those do.
\<close>

definition findAddJoin ::
  "('p::len, 'b::len, 'z) AddrSpaceManager_scheme \<Rightarrow> ('p, 'b) VarnodeData list \<Rightarrow> uint4
     \<Rightarrow> nat \<times> ('p, 'b, 'z) AddrSpaceManager_scheme" where
  "findAddJoin m pcs logicalsize =
     (case splitset m pcs of
        Some h \<Rightarrow> (h, m)
      | None \<Rightarrow>
          (let totalsize = max (sum_list (map size_vn pcs)) logicalsize;
               newjoin = \<lparr>pieces = pcs,
                          unified = \<lparr>space = joinspace m, offset_vn = joinallocate m,
                                     size_vn = totalsize\<rparr>\<rparr>;
               h = length (splitlist m)
           in (h, m\<lparr>joinallocate := joinallocate m + ucast totalsize,
                     splitset := (splitset m)(pcs \<mapsto> h),
                     splitlist := splitlist m @ [newjoin]\<rparr>)))"




text \<open>
  The vocabulary of the statements about joins. \<open>no_joins\<close>: no join has been requested
  from the manager yet. \<open>after_requests m reqs\<close>: the manager after the requests
  \<open>reqs\<close>, each a piece list with a logical size, were submitted to \<open>findAddJoin\<close> in
  order. \<open>join_fits\<close>: every unified location ends inside the offset range of the
  join space, that is, the cursor has never wrapped around. \<open>ranges_disjoint\<close>: two
  varnodes share no offset.
\<close>

definition no_joins :: "('p::len, 'b::len, 'z) AddrSpaceManager_scheme \<Rightarrow> bool" where
  "no_joins m \<longleftrightarrow> splitlist m = [] \<and> splitset m = Map.empty"

definition after_requests ::
  "('p::len, 'b::len, 'z) AddrSpaceManager_scheme \<Rightarrow> (('p, 'b) VarnodeData list \<times> uint4) list
     \<Rightarrow> ('p, 'b, 'z) AddrSpaceManager_scheme" where
  "after_requests m reqs = foldl (\<lambda>m' (pcs, l). snd (findAddJoin m' pcs l)) m reqs"

definition range_end :: "('p::len, 'b::len) VarnodeData \<Rightarrow> nat" where
  "range_end v = unat (offset_vn v) + unat (size_vn v)"

definition join_fits :: "('p::len, 'b::len, 'z) AddrSpaceManager_scheme \<Rightarrow> bool" where
  "join_fits m \<longleftrightarrow> list_all (\<lambda>r. range_end (unified r) < 2 ^ LENGTH('b)) (splitlist m)"

definition ranges_disjoint :: "('p::len, 'b::len) VarnodeData \<Rightarrow> ('p, 'b) VarnodeData \<Rightarrow> bool" where
  "ranges_disjoint u v \<longleftrightarrow>
     range_end u \<le> unat (offset_vn v) \<or> range_end v \<le> unat (offset_vn u)"

text \<open>
  Two facts that hold of every manager reached from one without joins.
  \<open>join_index_ok\<close>: the de-duplication set and the offset-indexed list hold the same
  records. \<open>laid_out c rs c'\<close>: the records \<open>rs\<close> lie one after the other from offset
  \<open>c\<close> to offset \<open>c'\<close>.
\<close>

definition join_index_ok :: "('p::len, 'b::len, 'z) AddrSpaceManager_scheme \<Rightarrow> bool" where
  "join_index_ok m \<longleftrightarrow>
     (\<forall>pcs h. splitset m pcs = Some h \<longrightarrow>
        h < length (splitlist m) \<and> pieces (splitlist m ! h) = pcs)
     \<and> (\<forall>h < length (splitlist m). splitset m (pieces (splitlist m ! h)) = Some h)"

fun laid_out :: "nat \<Rightarrow> ('p::len, 'b::len) JoinRecord list \<Rightarrow> nat \<Rightarrow> bool" where
  "laid_out c [] c' \<longleftrightarrow> c = c'"
| "laid_out c (r # rs) c' \<longleftrightarrow>
     unat (offset_vn (unified r)) = c \<and> laid_out (range_end (unified r)) rs c'"

subsection \<open>Concrete values\<close>

text \<open>
  A translator with three registered spaces and no joins, on a machine with 64-bit
  pointers and offsets and a 32-bit \<open>uintm\<close>.
\<close>

definition demo_translate :: "(64, 64, 32) Translate" where
  "demo_translate =
     \<lparr>baselist = [0x1000, 0x2000, 0x3000], resolvelist = [],
      name2Space = Map.empty, shortcut2Space = Map.empty,
      constantspace = 0x1000, defaultspace = 0x3000, iopspace = 0, fspecspace = 0,
      joinspace = 0x2000, stackspace = 0, uniqspace = 0,
      joinallocate = 0, splitset = Map.empty, splitlist = [],
      target_isbigendian = False, unique_base = 0x10, alignment = 1, floatformats = []\<rparr>"

text \<open>
  Two 4-byte registers, R0 at offset 0 and R1 at offset 4 of a register space, the two
  orders in which they can be joined, and the translator after the join of (R1, R0)
  and then after the join of (R0, R1).
\<close>

definition reg_R0 :: "(64, 64) VarnodeData" where
  "reg_R0 = \<lparr>space = 0x4000, offset_vn = 0, size_vn = 4\<rparr>"

definition reg_R1 :: "(64, 64) VarnodeData" where
  "reg_R1 = \<lparr>space = 0x4000, offset_vn = 4, size_vn = 4\<rparr>"

definition demo_hi_lo :: "(64, 64) VarnodeData list" where
  "demo_hi_lo = [reg_R1, reg_R0]"

definition demo_lo_hi :: "(64, 64) VarnodeData list" where
  "demo_lo_hi = [reg_R0, reg_R1]"

definition demo_joined :: "(64, 64, 32) Translate" where
  "demo_joined = snd (findAddJoin demo_translate demo_hi_lo 8)"

definition demo_joined2 :: "(64, 64, 32) Translate" where
  "demo_joined2 = after_requests demo_joined [(demo_lo_hi, 0)]"







section \<open>Properties\<close>

subsection \<open>Packed pcode tags\<close>

text \<open>
  C2: the reserved tag values of the packed pcode encoding are unimpl = 0x20,
  inst = 0x21, op = 0x22, void = 0x23, spaceid = 0x24, addrsz = 0x25 and end = 0x60.
  They are pairwise distinct and each fits in a byte.
\<close>

theorem packed_tag_values:
  "[unimpl_tag, inst_tag, op_tag, void_tag, spaceid_tag, addrsz_tag, end_tag]
     = [0x20, 0x21, 0x22, 0x23, 0x24, 0x25, 0x60]
   \<and> distinct [unimpl_tag, inst_tag, op_tag, void_tag, spaceid_tag, addrsz_tag, end_tag]
   \<and> list_all (\<lambda>t. 0 \<le> t \<and> t < 256)
        [unimpl_tag, inst_tag, op_tag, void_tag, spaceid_tag, addrsz_tag, end_tag]"
  by (simp add: unimpl_tag_def inst_tag_def op_tag_def void_tag_def spaceid_tag_def
      addrsz_tag_def end_tag_def)

subsection \<open>Lookup of a space by index\<close>

text \<open>
  C5, as amended: for every registered index \<open>i\<close> (0 \<le> i < number of spaces)
  \<open>getSpace\<close> returns the space at position \<open>i\<close> of the ordered space list; for any
  other index the unchecked subscript has no defined result, and no sentinel is
  returned. \<open>numSpaces\<close> is the length of the list whenever that fits an \<open>int4\<close>.
\<close>

theorem getSpace_registered:
  "(0 \<le> sint i \<and> sint i < int (length (baselist m))
      \<longrightarrow> getSpace m i = Element (baselist m ! nat (sint i)))
   \<and> (sint i < 0 \<or> int (length (baselist m)) \<le> sint i \<longrightarrow> getSpace m i = Undefined)
   \<and> (length (baselist m) < 2 ^ 31 \<longrightarrow> sint (numSpaces m) = int (length (baselist m)))"
proof -
  have "sint (of_nat n :: 32 word) = int n" if "n < 2 ^ 31" for n :: nat
  proof -
    have "- (2 ^ 31) \<le> int n" by simp
    moreover have "int n < 2 ^ 31" using that by (simp flip: of_nat_less_iff)
    ultimately have "signed_take_bit 31 (int n) = int n"
      by (intro signed_take_bit_int_eq_self)
    then show ?thesis by (simp add: signed_of_nat)
  qed
  then show ?thesis
    by (auto simp: getSpace_def numSpaces_def)
qed

theorem getSpace_registered_witness:
  "sint (numSpaces demo_translate) = 3
   \<and> getSpace demo_translate 0 = Element 0x1000
   \<and> getSpace demo_translate 2 = Element 0x3000
   \<and> getSpace demo_translate 7 = Undefined"
  using getSpace_registered [of 0 demo_translate] getSpace_registered [of 2 demo_translate]
    getSpace_registered [of 7 demo_translate]
  by (simp add: demo_translate_def)

text \<open>
  With three registered spaces, the indices 3 and -1 name no space; the call yields no
  defined result there, where the claim promises a sentinel.
\<close>

theorem getSpace_sentinel_counterexample:
  "sint (numSpaces demo_translate) = 3
   \<and> getSpace demo_translate 3 = Undefined
   \<and> getSpace demo_translate (- 1) = Undefined"
  by (simp add: getSpace_def numSpaces_def demo_translate_def)

subsection \<open>Constants as addresses\<close>

text \<open>
  C7: \<open>getConstant val\<close> is the address with the constant space as its space and \<open>val\<close>
  as its offset. \<open>createConstFromSpace spc\<close> is an address of the constant space
  whose offset is the pointer \<open>spc\<close> read as an integer; when a pointer is no wider
  than an offset, converting the offset back gives \<open>spc\<close> again, so the offset
  identifies the space.
\<close>

theorem constant_addresses:
  fixes m :: "('p::len, 'b::len, 'z) AddrSpaceManager_scheme"
  shows "base (getConstant m val) = getConstantSpace m
   \<and> offset (getConstant m val) = val
   \<and> base (createConstFromSpace m spc) = getConstantSpace m
   \<and> offset (createConstFromSpace m spc) = ucast spc
   \<and> (LENGTH('p) \<le> LENGTH('b) \<longrightarrow>
        (ucast (offset (createConstFromSpace m spc)) :: 'p word) = spc)"
  by (simp add: getConstant_def createConstFromSpace_def mkAddress_def getConstantSpace_def
      ucast_up_ucast_id is_up)

theorem constant_addresses_witness:
  "LENGTH(64) \<le> LENGTH(64)
   \<and> getConstant demo_translate 0x2A = \<lparr>base = 0x1000, offset = 0x2A\<rparr>
   \<and> createConstFromSpace demo_translate 0x3000 = \<lparr>base = 0x1000, offset = 0x3000\<rparr>
   \<and> (ucast (offset (createConstFromSpace demo_translate 0x3000)) :: 64 word) = 0x3000"
  using constant_addresses [of demo_translate "0x2A" "0x3000"]
  by (simp add: getConstant_def createConstFromSpace_def mkAddress_def demo_translate_def)

subsection \<open>Join records: what a request does\<close>

text \<open>
  A request either finds the record of its piece list or appends a new one; the
  entries of the de-duplication set and the records of the list are never changed
  afterwards.
\<close>

lemma findAddJoin_hit: "splitset m pcs = Some h \<Longrightarrow> findAddJoin m pcs l = (h, m)"
  by (simp add: findAddJoin_def)

lemma findAddJoin_miss:
  "splitset m pcs = None \<Longrightarrow>
   findAddJoin m pcs l =
     (length (splitlist m),
      m\<lparr>joinallocate := joinallocate m + ucast (max (sum_list (map size_vn pcs)) l),
        splitset := (splitset m)(pcs \<mapsto> length (splitlist m)),
        splitlist := splitlist m @
          [\<lparr>pieces = pcs,
            unified = \<lparr>space = joinspace m, offset_vn = joinallocate m,
                       size_vn = max (sum_list (map size_vn pcs)) l\<rparr>\<rparr>]\<rparr>)"
  by (simp add: findAddJoin_def Let_def)

lemma splitset_findAddJoin_same:
  "splitset (snd (findAddJoin m pcs l)) pcs = Some (fst (findAddJoin m pcs l))"
  by (cases "splitset m pcs") (simp_all add: findAddJoin_hit findAddJoin_miss)

lemma splitset_findAddJoin_keep:
  "splitset m ps = Some h \<Longrightarrow> splitset (snd (findAddJoin m pcs l)) ps = Some h"
  by (cases "splitset m pcs") (auto simp: findAddJoin_hit findAddJoin_miss)

lemma after_requests_Nil: "after_requests m [] = m"
  by (simp add: after_requests_def)

lemma after_requests_Cons:
  "after_requests m ((pcs, l) # reqs) = after_requests (snd (findAddJoin m pcs l)) reqs"
  by (simp add: after_requests_def)

lemma splitset_after_requests_keep:
  "splitset m ps = Some h \<Longrightarrow> splitset (after_requests m reqs) ps = Some h"
proof (induction reqs arbitrary: m)
  case Nil
  then show ?case by (simp add: after_requests_Nil)
next
  case (Cons req reqs)
  obtain pcs l where req: "req = (pcs, l)" by (cases req)
  show ?case
    unfolding req after_requests_Cons
    by (rule Cons.IH) (rule splitset_findAddJoin_keep [OF Cons.prems])
qed

lemma splitlist_findAddJoin:
  "\<exists>ys. splitlist (snd (findAddJoin m pcs l)) = splitlist m @ ys"
  by (cases "splitset m pcs") (auto simp: findAddJoin_hit findAddJoin_miss)

lemma splitlist_after_requests:
  "\<exists>ys. splitlist (after_requests m reqs) = splitlist m @ ys"
proof (induction reqs arbitrary: m)
  case Nil
  show ?case by (simp add: after_requests_Nil)
next
  case (Cons req reqs)
  obtain pcs l where req: "req = (pcs, l)" by (cases req)
  obtain ys where "splitlist (snd (findAddJoin m pcs l)) = splitlist m @ ys"
    using splitlist_findAddJoin by blast
  moreover obtain zs where
    "splitlist (after_requests (snd (findAddJoin m pcs l)) reqs)
       = splitlist (snd (findAddJoin m pcs l)) @ zs"
    using Cons.IH by blast
  ultimately show ?case
    unfolding req after_requests_Cons by simp
qed

lemma join_fits_prefix:
  fixes m m' :: "('p::len, 'b::len, 'z) AddrSpaceManager_scheme"
  assumes "join_fits m'" and "splitlist m' = splitlist m @ ys"
  shows "join_fits m"
  using assms by (simp add: join_fits_def)

lemma join_fits_findAddJoin: "join_fits (snd (findAddJoin m pcs l)) \<Longrightarrow> join_fits m"
  using splitlist_findAddJoin [of m pcs l] by (auto intro: join_fits_prefix)

lemma join_fits_after_requests: "join_fits (after_requests m reqs) \<Longrightarrow> join_fits m"
  using splitlist_after_requests [of m reqs] by (auto intro: join_fits_prefix)

lemma join_index_ok_fresh: "no_joins m \<Longrightarrow> join_index_ok m"
  by (simp add: no_joins_def join_index_ok_def)

lemma join_index_ok_findAddJoin:
  assumes ok: "join_index_ok m"
  shows "join_index_ok (snd (findAddJoin m pcs l))"
proof (cases "splitset m pcs")
  case (Some h)
  then show ?thesis using ok by (simp add: findAddJoin_hit)
next
  case None
  define n where "n = length (splitlist m)"
  define r where "r = \<lparr>pieces = pcs,
      unified = \<lparr>space = joinspace m, offset_vn = joinallocate m,
                 size_vn = max (sum_list (map size_vn pcs)) l\<rparr>\<rparr>"
  define m' where "m' = snd (findAddJoin m pcs l)"
  have set': "splitset m' = (splitset m)(pcs \<mapsto> n)"
    and list': "splitlist m' = splitlist m @ [r]"
    by (simp_all add: m'_def findAddJoin_miss [OF None] n_def r_def)
  have old1: "h < n \<and> pieces (splitlist m ! h) = ps" if "splitset m ps = Some h" for ps h
    using ok that unfolding join_index_ok_def n_def by blast
  have old2: "splitset m (pieces (splitlist m ! h)) = Some h" if "h < n" for h
    using ok that unfolding join_index_ok_def n_def by blast
  have fresh: "pieces (splitlist m ! h) \<noteq> pcs" if "h < n" for h
    using old2 [OF that] None by auto
  have new1: "h < length (splitlist m') \<and> pieces (splitlist m' ! h) = ps"
    if "splitset m' ps = Some h" for ps h
  proof (cases "ps = pcs")
    case True
    then have "h = n" using that by (simp add: set')
    then show ?thesis using True by (simp add: list' n_def r_def)
  next
    case False
    then have "splitset m ps = Some h" using that by (simp add: set')
    then have "h < n \<and> pieces (splitlist m ! h) = ps" by (rule old1)
    then show ?thesis by (simp add: list' n_def nth_append)
  qed
  have new2: "splitset m' (pieces (splitlist m' ! h)) = Some h"
    if "h < length (splitlist m')" for h
  proof (cases "h = n")
    case True
    then show ?thesis by (simp add: list' set' n_def r_def)
  next
    case False
    then have h: "h < n" using that by (simp add: list' n_def)
    then have "splitlist m' ! h = splitlist m ! h"
      by (simp add: list' n_def nth_append)
    then show ?thesis
      using old2 [OF h] fresh [OF h] by (simp add: set')
  qed
  show ?thesis
    unfolding join_index_ok_def m'_def [symmetric] using new1 new2 by blast
qed

lemma join_index_ok_after_requests:
  "join_index_ok m \<Longrightarrow> join_index_ok (after_requests m reqs)"
proof (induction reqs arbitrary: m)
  case Nil
  then show ?case by (simp add: after_requests_Nil)
next
  case (Cons req reqs)
  obtain pcs l where req: "req = (pcs, l)" by (cases req)
  show ?case
    unfolding req after_requests_Cons
    by (rule Cons.IH) (rule join_index_ok_findAddJoin [OF Cons.prems])
qed

lemma join_index_ok_distinct:
  assumes ok: "join_index_ok m"
  shows "distinct (map pieces (splitlist m))"
proof -
  have idx: "splitset m (pieces (splitlist m ! h)) = Some h" if "h < length (splitlist m)" for h
    using ok that unfolding join_index_ok_def by blast
  show ?thesis
    unfolding distinct_conv_nth
  proof (intro allI impI)
    fix i j
    assume i: "i < length (map pieces (splitlist m))"
      and j: "j < length (map pieces (splitlist m))" and ne: "i \<noteq> j"
    have "splitset m (pieces (splitlist m ! i)) = Some i"
      and "splitset m (pieces (splitlist m ! j)) = Some j"
      using i j by (simp_all add: idx)
    then have "pieces (splitlist m ! i) \<noteq> pieces (splitlist m ! j)"
      using ne by auto
    then show "map pieces (splitlist m) ! i \<noteq> map pieces (splitlist m) ! j"
      using i j by simp
  qed
qed

lemma laid_out_snoc:
  "laid_out c (rs @ [r]) c' \<longleftrightarrow>
     laid_out c rs (unat (offset_vn (unified r))) \<and> c' = range_end (unified r)"
  by (induction rs arbitrary: c) auto


lemma laid_out_lower:
  "laid_out c rs c' \<Longrightarrow> k < length rs \<Longrightarrow> c \<le> unat (offset_vn (unified (rs ! k)))"
proof (induction rs arbitrary: c k)
  case Nil
  then show ?case by simp
next
  case (Cons r rs)
  show ?case
  proof (cases k)
    case 0
    with Cons.prems show ?thesis by simp
  next
    case (Suc k')
    then have "range_end (unified r) \<le> unat (offset_vn (unified (rs ! k')))"
      using Cons.IH [of "range_end (unified r)" k'] Cons.prems by simp
    moreover have "c \<le> range_end (unified r)"
      using Cons.prems by (simp add: range_end_def)
    ultimately show ?thesis using Suc by simp
  qed
qed

lemma laid_out_ordered:
  "laid_out c rs c' \<Longrightarrow> i < j \<Longrightarrow> j < length rs \<Longrightarrow>
   range_end (unified (rs ! i)) \<le> unat (offset_vn (unified (rs ! j)))"
proof (induction rs arbitrary: c i j)
  case Nil
  then show ?case by simp
next
  case (Cons r rs)
  obtain j' where j: "j = Suc j'" using Cons.prems(2) by (cases j) auto
  show ?case
  proof (cases i)
    case 0
    then show ?thesis
      using laid_out_lower [of "range_end (unified r)" rs c' j'] Cons.prems j by simp
  next
    case (Suc i')
    then show ?thesis
      using Cons.IH [of "range_end (unified r)" i' j'] Cons.prems j by simp
  qed
qed





lemma laid_out_findAddJoin:
  fixes m :: "('p::len, 'b::len, 'z) AddrSpaceManager_scheme"
  assumes lay: "laid_out c (splitlist m) (unat (joinallocate m))"
    and fits: "join_fits (snd (findAddJoin m pcs l))"
  shows "laid_out c (splitlist (snd (findAddJoin m pcs l)))
           (unat (joinallocate (snd (findAddJoin m pcs l))))"
proof (cases "splitset m pcs")
  case (Some h)
  then show ?thesis using lay by (simp add: findAddJoin_hit)
next
  case None
  define ts where "ts = max (sum_list (map size_vn pcs)) l"
  have bound: "unat (joinallocate m) + unat ts < 2 ^ LENGTH('b)"
    using fits by (simp add: findAddJoin_miss [OF None] join_fits_def range_end_def ts_def)
  then have "unat ts < 2 ^ LENGTH('b)" by simp
  then have cast: "unat (ucast ts :: 'b word) = unat ts"
    by (simp add: unsigned_ucast_eq take_bit_nat_eq_self)
  have "unat (joinallocate m) + unat (ucast ts :: 'b word) < 2 ^ LENGTH('b)"
    using bound cast by simp
  then have "unat (joinallocate m + ucast ts) = unat (joinallocate m) + unat (ucast ts :: 'b word)"
    by (rule unat_add_lem [THEN iffD1])
  then have "unat (joinallocate m + ucast ts) = unat (joinallocate m) + unat ts"
    using cast by simp
  then show ?thesis
    using lay by (simp add: findAddJoin_miss [OF None] laid_out_snoc range_end_def ts_def)
qed

lemma laid_out_after_requests:
  fixes m :: "('p::len, 'b::len, 'z) AddrSpaceManager_scheme"
  shows "laid_out c (splitlist m) (unat (joinallocate m)) \<Longrightarrow> join_fits (after_requests m reqs) \<Longrightarrow>
   laid_out c (splitlist (after_requests m reqs)) (unat (joinallocate (after_requests m reqs)))"
proof (induction reqs arbitrary: m)
  case Nil
  then show ?case by (simp add: after_requests_Nil)
next
  case (Cons req reqs)
  obtain pcs l where req: "req = (pcs, l)" by (cases req)
  have fits: "join_fits (after_requests (snd (findAddJoin m pcs l)) reqs)"
    using Cons.prems(2) by (simp add: req after_requests_Cons)
  then have "join_fits (snd (findAddJoin m pcs l))"
    by (rule join_fits_after_requests)
  then have "laid_out c (splitlist (snd (findAddJoin m pcs l)))
      (unat (joinallocate (snd (findAddJoin m pcs l))))"
    by (rule laid_out_findAddJoin [OF Cons.prems(1)])
  then show ?case
    unfolding req after_requests_Cons using fits by (rule Cons.IH)
qed

lemma laid_out_fresh:
  "no_joins m \<Longrightarrow> laid_out (unat (joinallocate m)) (splitlist m) (unat (joinallocate m))"
  by (simp add: no_joins_def)

lemma after_requests_append:
  "after_requests m (xs @ ys) = after_requests (after_requests m xs) ys"
  by (simp add: after_requests_def)

lemma findAddJoin_again:
  "findAddJoin (after_requests (snd (findAddJoin m pcs l1)) reqs) pcs l2
     = (fst (findAddJoin m pcs l1), after_requests (snd (findAddJoin m pcs l1)) reqs)"
  by (rule findAddJoin_hit) (rule splitset_after_requests_keep [OF splitset_findAddJoin_same])

lemma splitlist_nth_kept:
  assumes "h < length (splitlist m)"
  shows "splitlist (after_requests m reqs) ! h = splitlist m ! h"
proof -
  obtain ys where "splitlist (after_requests m reqs) = splitlist m @ ys"
    using splitlist_after_requests by blast
  then show ?thesis using assms by (simp add: nth_append)
qed







subsection \<open>Join records: the running example\<close>

lemma demo_fresh: "no_joins demo_translate"
  by (simp add: no_joins_def demo_translate_def)

lemma demo_first: "findAddJoin (after_requests demo_translate []) demo_hi_lo 8 = (0, demo_joined)"
  by (simp add: after_requests_def demo_joined_def findAddJoin_def demo_translate_def Let_def)

lemma demo_joined_list:
  "splitlist demo_joined =
     [\<lparr>pieces = demo_hi_lo, unified = \<lparr>space = 0x2000, offset_vn = 0, size_vn = 8\<rparr>\<rparr>]"
  "joinallocate demo_joined = 8"
  "splitset demo_joined = [demo_hi_lo \<mapsto> 0]"
  by (simp_all add: demo_joined_def findAddJoin_def demo_translate_def Let_def demo_hi_lo_def
      reg_R0_def reg_R1_def)

lemma demo_differ: "demo_hi_lo \<noteq> demo_lo_hi"
  by (simp add: demo_hi_lo_def demo_lo_hi_def reg_R0_def reg_R1_def)

lemma demo_joined2_list:
  "splitlist demo_joined2 =
     [\<lparr>pieces = demo_hi_lo, unified = \<lparr>space = 0x2000, offset_vn = 0, size_vn = 8\<rparr>\<rparr>,
      \<lparr>pieces = demo_lo_hi, unified = \<lparr>space = 0x2000, offset_vn = 8, size_vn = 8\<rparr>\<rparr>]"
  "joinallocate demo_joined2 = 16"
  "splitset demo_joined2 = [demo_hi_lo \<mapsto> 0, demo_lo_hi \<mapsto> 1]"
proof -
  have miss: "splitset demo_joined demo_lo_hi = None"
    using demo_differ by (simp add: demo_joined_list)
  have js: "joinspace demo_joined = 0x2000"
    by (simp add: demo_joined_def findAddJoin_def demo_translate_def Let_def)
  have sz: "max (sum_list (map size_vn demo_lo_hi)) 0 = (8 :: 32 word)"
    by (simp add: demo_lo_hi_def reg_R0_def reg_R1_def)
  show "splitlist demo_joined2 =
     [\<lparr>pieces = demo_hi_lo, unified = \<lparr>space = 0x2000, offset_vn = 0, size_vn = 8\<rparr>\<rparr>,
      \<lparr>pieces = demo_lo_hi, unified = \<lparr>space = 0x2000, offset_vn = 8, size_vn = 8\<rparr>\<rparr>]"
    "joinallocate demo_joined2 = 16"
    "splitset demo_joined2 = [demo_hi_lo \<mapsto> 0, demo_lo_hi \<mapsto> 1]"
    by (simp_all add: demo_joined2_def after_requests_def findAddJoin_miss [OF miss] sz js
        demo_joined_list)
qed

lemma demo_second: "findAddJoin (after_requests demo_joined []) demo_lo_hi 0 = (1, demo_joined2)"
proof -
  have miss: "splitset demo_joined demo_lo_hi = None"
    using demo_differ by (simp add: demo_joined_list)
  show ?thesis
    by (simp add: after_requests_def demo_joined2_def findAddJoin_miss [OF miss] demo_joined_list)
qed

lemma demo_fits: "join_fits demo_joined2"
  by (simp add: join_fits_def range_end_def demo_joined2_list)





subsection \<open>Float-extension records\<close>




subsection \<open>Join records: de-duplication\<close>

text \<open>
  C1: in a manager that started without joins, let a piece sequence be submitted to
  \<open>findAddJoin\<close>, then any further requests, then the same piece sequence again
  (with any logical size). The second call returns the pointer the first call
  returned and leaves the manager as it was, so the allocation cursor does not grow;
  the record behind the pointer is the one of the first call, unchanged; and no two
  records of the manager have the same piece sequence.
\<close>

theorem findAddJoin_same_record:
  assumes fresh: "no_joins m0"
    and first: "findAddJoin (after_requests m0 reqs0) pcs l1 = (r1, m1)"
    and later: "m2 = after_requests m1 reqs"
  shows "findAddJoin m2 pcs l2 = (r1, m2)
     \<and> joinallocate (snd (findAddJoin m2 pcs l2)) = joinallocate m2
     \<and> r1 < length (splitlist m1)
     \<and> splitlist m2 ! r1 = splitlist m1 ! r1
     \<and> pieces (splitlist m2 ! r1) = pcs
     \<and> distinct (map pieces (splitlist m2))"
proof -
  have r1: "r1 = fst (findAddJoin (after_requests m0 reqs0) pcs l1)"
    and m1: "m1 = snd (findAddJoin (after_requests m0 reqs0) pcs l1)"
    using first by simp_all
  have again: "findAddJoin m2 pcs l2 = (r1, m2)"
    unfolding later r1 m1 by (rule findAddJoin_again)
  have ok1: "join_index_ok m1"
    unfolding m1
    by (intro join_index_ok_findAddJoin join_index_ok_after_requests join_index_ok_fresh fresh)
  then have ok2: "join_index_ok m2"
    unfolding later by (rule join_index_ok_after_requests)
  have "splitset m1 pcs = Some r1"
    unfolding r1 m1 by (rule splitset_findAddJoin_same)
  then have here: "r1 < length (splitlist m1) \<and> pieces (splitlist m1 ! r1) = pcs"
    using ok1 unfolding join_index_ok_def by blast
  then have kept: "splitlist m2 ! r1 = splitlist m1 ! r1"
    unfolding later by (intro splitlist_nth_kept) simp
  show ?thesis
    using again here kept join_index_ok_distinct [OF ok2] by simp
qed

theorem findAddJoin_same_record_witness:
  "no_joins demo_translate
   \<and> findAddJoin demo_translate demo_hi_lo 8 = (0, demo_joined)
   \<and> findAddJoin demo_joined demo_hi_lo 8 = (0, demo_joined)
   \<and> findAddJoin demo_joined2 demo_hi_lo 0 = (0, demo_joined2)
   \<and> joinallocate (snd (findAddJoin demo_joined2 demo_hi_lo 0)) = 16
   \<and> pieces (splitlist demo_joined2 ! 0) = demo_hi_lo
   \<and> distinct (map pieces (splitlist demo_joined2))"
  using findAddJoin_same_record [OF demo_fresh demo_first demo_joined2_def, of 0]
    findAddJoin_same_record [OF demo_fresh demo_first after_requests_Nil [symmetric], of 8]
    demo_fresh demo_first
  by (simp add: after_requests_Nil demo_joined2_list)

subsection \<open>Join records: distinct requests\<close>

text \<open>
  C4: in a manager that started without joins, two different piece sequences
  submitted to \<open>findAddJoin\<close>, with any requests before, between and after them, get
  different pointers to different records, and the unified locations of the two
  records share no offset of the join space. The unified locations are assumed to lie
  inside the offset range of the join space (\<open>join_fits\<close>), which the spec assumes of
  every address a join builder makes.
\<close>

theorem findAddJoin_distinct_records:
  assumes fresh: "no_joins m0"
    and first: "findAddJoin (after_requests m0 reqs0) pcs1 l1 = (r1, m1)"
    and second: "findAddJoin (after_requests m1 reqs1) pcs2 l2 = (r2, m2)"
    and later: "m3 = after_requests m2 reqs2"
    and diff: "pcs1 \<noteq> pcs2"
    and fits: "join_fits m3"
  shows "r1 \<noteq> r2
     \<and> r1 < length (splitlist m3) \<and> r2 < length (splitlist m3)
     \<and> pieces (splitlist m3 ! r1) = pcs1 \<and> pieces (splitlist m3 ! r2) = pcs2
     \<and> splitlist m3 ! r1 \<noteq> splitlist m3 ! r2
     \<and> ranges_disjoint (unified (splitlist m3 ! r1)) (unified (splitlist m3 ! r2))"
proof -
  have r1: "r1 = fst (findAddJoin (after_requests m0 reqs0) pcs1 l1)"
    and m1: "m1 = snd (findAddJoin (after_requests m0 reqs0) pcs1 l1)"
    using first by simp_all
  have r2: "r2 = fst (findAddJoin (after_requests m1 reqs1) pcs2 l2)"
    and m2: "m2 = snd (findAddJoin (after_requests m1 reqs1) pcs2 l2)"
    using second by simp_all
  define all where "all = reqs0 @ [(pcs1, l1)] @ reqs1 @ [(pcs2, l2)] @ reqs2"
  have m3: "m3 = after_requests m0 all"
    unfolding later m2 m1 all_def
    by (simp add: after_requests_append after_requests_Cons after_requests_Nil)
  have ok: "join_index_ok m3"
    unfolding m3 by (intro join_index_ok_after_requests join_index_ok_fresh fresh)
  have lay: "laid_out (unat (joinallocate m0)) (splitlist m3) (unat (joinallocate m3))"
    using fits unfolding m3 by (intro laid_out_after_requests laid_out_fresh fresh)
  have "splitset m1 pcs1 = Some r1"
    unfolding r1 m1 by (rule splitset_findAddJoin_same)
  then have "splitset m2 pcs1 = Some r1"
    unfolding m2 by (intro splitset_findAddJoin_keep splitset_after_requests_keep)
  then have s1: "splitset m3 pcs1 = Some r1"
    unfolding later by (rule splitset_after_requests_keep)
  have "splitset m2 pcs2 = Some r2"
    unfolding r2 m2 by (rule splitset_findAddJoin_same)
  then have s2: "splitset m3 pcs2 = Some r2"
    unfolding later by (rule splitset_after_requests_keep)
  have i1: "r1 < length (splitlist m3) \<and> pieces (splitlist m3 ! r1) = pcs1"
    using ok s1 unfolding join_index_ok_def by blast
  have i2: "r2 < length (splitlist m3) \<and> pieces (splitlist m3 ! r2) = pcs2"
    using ok s2 unfolding join_index_ok_def by blast
  have ne: "r1 \<noteq> r2" using i1 i2 diff by auto
  have recs: "splitlist m3 ! r1 \<noteq> splitlist m3 ! r2" using i1 i2 diff by auto
  have "ranges_disjoint (unified (splitlist m3 ! r1)) (unified (splitlist m3 ! r2))"
  proof (cases "r1 < r2")
    case True
    then have "range_end (unified (splitlist m3 ! r1))
        \<le> unat (offset_vn (unified (splitlist m3 ! r2)))"
      using i2 by (intro laid_out_ordered [OF lay]) simp_all
    then show ?thesis by (simp add: ranges_disjoint_def)
  next
    case False
    then have "r2 < r1" using ne by simp
    then have "range_end (unified (splitlist m3 ! r2))
        \<le> unat (offset_vn (unified (splitlist m3 ! r1)))"
      using i1 by (intro laid_out_ordered [OF lay]) simp_all
    then show ?thesis by (simp add: ranges_disjoint_def)
  qed
  then show ?thesis using ne recs i1 i2 by simp
qed

theorem findAddJoin_distinct_records_witness:
  "no_joins demo_translate
   \<and> demo_hi_lo \<noteq> demo_lo_hi
   \<and> join_fits demo_joined2
   \<and> findAddJoin demo_translate demo_hi_lo 8 = (0, demo_joined)
   \<and> findAddJoin demo_joined demo_lo_hi 0 = (1, demo_joined2)
   \<and> splitlist demo_joined2 ! 0 \<noteq> splitlist demo_joined2 ! 1
   \<and> unified (splitlist demo_joined2 ! 0) = \<lparr>space = 0x2000, offset_vn = 0, size_vn = 8\<rparr>
   \<and> unified (splitlist demo_joined2 ! 1) = \<lparr>space = 0x2000, offset_vn = 8, size_vn = 8\<rparr>
   \<and> ranges_disjoint (unified (splitlist demo_joined2 ! 0)) (unified (splitlist demo_joined2 ! 1))"
  using findAddJoin_distinct_records [OF demo_fresh demo_first demo_second
      after_requests_Nil [symmetric] demo_differ]
    demo_fresh demo_first demo_second demo_differ demo_fits
  by (simp add: after_requests_Nil demo_joined2_list)

subsection \<open>Join records: reverse lookup\<close>






subsection \<open>The unimplemented-instruction error\<close>

text \<open>
  C8: the error built by \<open>UnimplError(s, l)\<close> carries \<open>l\<close> as its instruction length
  (and \<open>s\<close> as its explanation), for every string \<open>s\<close> and every length \<open>l\<close>.
\<close>

theorem UnimplError_length:
  "instruction_length (UnimplError_init s l) = l \<and> explain (UnimplError_init s l) = s"
  by (simp add: UnimplError_init_def LowlevelError_init_def LowlevelError.defs UnimplError.defs)

subsection \<open>Context variables in the base class\<close>

text \<open>
  C9: the base-class \<open>registerContext\<close> and \<open>setContextDefault\<close> do nothing: for all
  arguments the translator after the call is the translator before it, in every
  field, those of the address space manager included.
\<close>

theorem context_noop:
  "registerContext t name sbit ebit = t \<and> setContextDefault t name val = t"
  by (simp add: registerContext_def setContextDefault_def)

subsection \<open>The base of the unique space\<close>

lemma getUniqueBase_setUniqueBase:
  "getUniqueBase (setUniqueBase t val) = max (getUniqueBase t) val"
  by (auto simp add: getUniqueBase_def setUniqueBase_def max_def)

lemma getUniqueBase_foldl:
  "getUniqueBase (foldl setUniqueBase t vals) = Max (set (getUniqueBase t # vals))"
proof (induction vals arbitrary: t)
  case Nil
  show ?case by simp
next
  case (Cons v vs)
  have "getUniqueBase (foldl setUniqueBase t (v # vs)) = Max (set (max (getUniqueBase t) v # vs))"
    using Cons.IH [of "setUniqueBase t v"] by (simp add: getUniqueBase_setUniqueBase)
  also have "\<dots> = Max (set (getUniqueBase t # v # vs))"
    by (cases "vs = []") (simp_all add: max.assoc max.commute max.left_commute)
  finally show ?case .
qed

text \<open>
  C10: \<open>setUniqueBase val\<close> sets the base to the maximum of its current value and
  \<open>val\<close>; the base never decreases; after any sequence of calls it is the largest
  of the initial value and the values passed; a call with a value that is not larger
  leaves the translator unchanged.
\<close>

theorem setUniqueBase_monotone:
  "getUniqueBase (setUniqueBase t val) = max (getUniqueBase t) val
   \<and> getUniqueBase t \<le> getUniqueBase (setUniqueBase t val)
   \<and> getUniqueBase (foldl setUniqueBase t vals) = Max (set (getUniqueBase t # vals))
   \<and> (val \<le> getUniqueBase t \<longrightarrow> setUniqueBase t val = t)"
  by (simp add: getUniqueBase_setUniqueBase getUniqueBase_foldl del: set_simps)
     (simp add: getUniqueBase_def setUniqueBase_def)

theorem setUniqueBase_monotone_witness:
  "(3 :: 32 word) \<le> getUniqueBase demo_translate
   \<and> setUniqueBase demo_translate 3 = demo_translate
   \<and> getUniqueBase (setUniqueBase demo_translate 0x40) = 0x40
   \<and> getUniqueBase (foldl setUniqueBase demo_translate [0x40, 3, 0x20]) = 0x40"
  using setUniqueBase_monotone [of demo_translate 3 "[0x40, 3, 0x20]"]
    setUniqueBase_monotone [of demo_translate "0x40" "[]"]
  by (simp add: getUniqueBase_def demo_translate_def)

end
